theory Spec2Isabelle
  imports Main "HOL-Library.Word" "HOL-Library.Multiset"
begin

section \<open>Strings\<close>

text \<open>
  A JavaScript string is a sequence of UTF-16 code units. The regular expressions of the
  source have no \<^verbatim>\<open>u\<close> flag, so they work on code units one by one.
  \<open>js\<close> turns an ASCII literal into such a string.
\<close>

type_synonym jschar = "16 word"
type_synonym jsstring = "jschar list"

definition js :: "string \<Rightarrow> jsstring" where
  "js s = map (\<lambda>c. of_nat (of_char c)) s"

section \<open>Data model\<close>

text \<open>The interface \<^verbatim>\<open>Podcast\<close> of the scraper; the downloader reads the same
  objects and ignores \<open>description\<close>.\<close>

record Podcast =
  title :: jsstring
  releaseDate :: jsstring
  downloadLink :: jsstring
  description :: jsstring

text \<open>The status labels the progress bar is ticked with.\<close>

datatype status = Downloaded | Skipped | Converted

text \<open>What the source throws, and what its collaborators can throw at it.\<close>

datatype error =
    ReadError
  | SyntaxError
  | RegExpError
  | MkdirError
  | NetworkError
  | DownloadFailed jsstring jsstring
  | NoResponseBody jsstring
  | StreamError
  | ExecError
  | LaunchError
  | WriteError

text \<open>The lines the source prints, one constructor per template string.\<close>

datatype message =
    WouldDownload jsstring jsstring
  | WouldConvert jsstring jsstring
  | FfmpegNotInstalled
  | FilteredTo nat jsstring
  | NoPodcastsToDownload
  | FailedToDownload jsstring
  | DownloadsComplete
  | ErrorColon
  | ErrorReadingExisting
  | FoundExisting nat
  | FoundNew nat
  | NoNewPodcasts
  | SuccessfullySaved nat jsstring
  | FailedToSave

text \<open>
  Every effect of the two programs is an event of the trace: file-system and network
  calls, subprocesses, progress-bar ticks and console lines.
\<close>

datatype event =
    ReadFile jsstring
  | ExecSync jsstring
  | Mkdir jsstring
  | Fetch jsstring
  | CreateWriteStream jsstring
  | ExecFileSync jsstring "jsstring list"
  | WriteFile jsstring "Podcast list"
  | Tick jsstring status
  | ConsoleLog message
  | ConsoleError message "error option"

text \<open>
  The mutable part of the world: which paths exist, and the trace so far.
\<close>

record io =
  files :: "jsstring set"
  trace :: "event list"

definition emit :: "event \<Rightarrow> io \<Rightarrow> io" where
  "emit e s = s\<lparr>trace := trace s @ [e]\<rparr>"

text \<open>
  How a response body reaches the disk: the pipeline completes, it fails after the write
  stream has created the file, or the write stream cannot be opened at all.
\<close>

datatype transfer = Complete | PartialFile | NotOpened

datatype response = Response (ok: bool) (statusText: jsstring) (body: "transfer option")

text \<open>
  The collaborators of the source, as oracles: the file contents \<open>readFile\<close> returns
  (\<open>None\<close>: it rejects), \<open>JSON.parse\<close> (\<open>None\<close>: it throws), whether
  \<^verbatim>\<open>ffmpeg -version\<close> runs, the regular-expression engine (\<open>None\<close>: the
  pattern does not compile), \<open>path.resolve\<close>, \<open>mkdir\<close>, \<open>fetch\<close> (\<open>None\<close>: it
  rejects), the encoder's exit status on an argument list, the browser scrape (\<open>None\<close>:
  the browser cannot be launched) and \<open>writeFile\<close>.
\<close>

record env =
  readFile :: "jsstring \<Rightarrow> jsstring option"
  jsonParse :: "jsstring \<Rightarrow> Podcast list option"
  ffmpegVersion :: bool
  regExp :: "jsstring \<Rightarrow> (jsstring \<Rightarrow> bool) option"
  resolve :: "jsstring \<Rightarrow> jsstring"
  mkdir :: "jsstring \<Rightarrow> bool"
  fetch :: "jsstring \<Rightarrow> response option"
  ffmpeg :: "jsstring list \<Rightarrow> bool"
  scrapePodcasts :: "Podcast list option"
  writeFile :: "jsstring \<Rightarrow> bool"

section \<open>Sanitization\<close>

text \<open>The character class \<^verbatim>\<open>[/\\?%*:|"<>]\<close>: slash, backslash, question mark,
  percent, asterisk, colon, bar, double quote, less-than, greater-than.\<close>

definition isInvalidChar :: "jschar \<Rightarrow> bool" where
  "isInvalidChar c =
     (c \<in> set [0x2F, 0x5C, 0x3F, 0x25, 0x2A, 0x3A, 0x7C, 0x22, 0x3C, 0x3E])"

text \<open>The class \<^verbatim>\<open>\s\<close> of ECMAScript: white space and line terminators.\<close>

definition isWhitespace :: "jschar \<Rightarrow> bool" where
  "isWhitespace c =
     (c \<in> set [0x09, 0x0A, 0x0B, 0x0C, 0x0D, 0x20, 0xA0, 0x1680, 0x2028, 0x2029,
               0x202F, 0x205F, 0x3000, 0xFEFF]
      \<or> (0x2000 \<le> c \<and> c \<le> 0x200A))"

text \<open>\<^verbatim>\<open>.replace(/[/\\?%*:|"<>]/g, "-")\<close>\<close>

definition replaceInvalid :: "jsstring \<Rightarrow> jsstring" where
  "replaceInvalid s = map (\<lambda>c. if isInvalidChar c then 0x2D else c) s"

text \<open>\<^verbatim>\<open>.replace(/\s+/g, "_")\<close>: every maximal run of white space becomes one
  underscore.\<close>

function replaceWhitespace :: "jsstring \<Rightarrow> jsstring" where
  "replaceWhitespace [] = []"
| "replaceWhitespace (c # cs) =
     (if isWhitespace c then 0x5F # replaceWhitespace (dropWhile isWhitespace cs)
      else c # replaceWhitespace cs)"
  by pat_completeness auto
termination
  by (relation "measure length") (auto simp: length_dropWhile_le less_Suc_eq_le)

definition sanitizeFilename :: "jsstring \<Rightarrow> jsstring" where
  "sanitizeFilename filename = replaceWhitespace (replaceInvalid filename)"

section \<open>The scraper: merging catalogs\<close>

text \<open>The key \<^verbatim>\<open>`${p.title}|${p.releaseDate}`\<close>.\<close>

definition identityKey :: "Podcast \<Rightarrow> jsstring" where
  "identityKey p = title p @ js ''|'' @ releaseDate p"

definition uniqueNewPodcasts :: "Podcast list \<Rightarrow> Podcast list \<Rightarrow> Podcast list" where
  "uniqueNewPodcasts existing newPodcasts =
     (let existingSet = set (map identityKey existing)
      in filter (\<lambda>p. identityKey p \<notin> existingSet) newPodcasts)"

text \<open>The catalog \<open>mergePodcasts\<close> returns, and the line it prints on the way.\<close>

definition mergePodcasts :: "Podcast list \<Rightarrow> Podcast list \<Rightarrow> Podcast list" where
  "mergePodcasts existing newPodcasts = existing @ uniqueNewPodcasts existing newPodcasts"

definition mergePodcastsLog :: "Podcast list \<Rightarrow> Podcast list \<Rightarrow> event" where
  "mergePodcastsLog existing newPodcasts =
     (let n = length (uniqueNewPodcasts existing newPodcasts)
      in if n > 0 then ConsoleLog (FoundNew n) else ConsoleLog NoNewPodcasts)"

text \<open>
  \<open>readExistingPodcasts\<close>: an absent file is the empty catalog; so is, after a line on
  the error console, a file that cannot be read or parsed (the \<^verbatim>\<open>catch\<close> of the
  source).
\<close>

definition readExistingPodcasts :: "env \<Rightarrow> jsstring \<Rightarrow> io \<Rightarrow> Podcast list \<times> io" where
  "readExistingPodcasts e filePath s =
     (if filePath \<notin> files s then ([], s)
      else
        (let s1 = emit (ReadFile filePath) s in
         case readFile e filePath of
           None \<Rightarrow> ([], emit (ConsoleError ErrorReadingExisting (Some ReadError)) s1)
         | Some fileContent \<Rightarrow>
             (case jsonParse e fileContent of
                None \<Rightarrow> ([], emit (ConsoleError ErrorReadingExisting (Some SyntaxError)) s1)
              | Some podcasts \<Rightarrow> (podcasts, s1))))"

text \<open>
  \<open>main\<close> of the scraper, from the output path to the exit code and the final world.
\<close>

definition scraperMain :: "env \<Rightarrow> jsstring \<Rightarrow> io \<Rightarrow> nat \<times> io" where
  "scraperMain e output s =
     (let outputPath = resolve e output;
          (existingPodcasts, s1) = readExistingPodcasts e outputPath s;
          s2 = emit (ConsoleLog (FoundExisting (length existingPodcasts))) s1
      in case scrapePodcasts e of
           None \<Rightarrow> (1, emit (ConsoleError FailedToSave (Some LaunchError)) s2)
         | Some newPodcasts \<Rightarrow>
             (let mergedPodcasts = mergePodcasts existingPodcasts newPodcasts;
                  s3 = emit (mergePodcastsLog existingPodcasts newPodcasts) s2;
                  s4 = emit (WriteFile outputPath mergedPodcasts) s3
              in if writeFile e outputPath
                 then (0, emit (ConsoleLog (SuccessfullySaved (length mergedPodcasts) outputPath))
                            (s4\<lparr>files := insert outputPath (files s4)\<rparr>))
                 else (1, emit (ConsoleError FailedToSave (Some WriteError)) s4)))"

section \<open>The downloader: transfer and transcoding\<close>

record argv =
  argv_input :: jsstring
  argv_download_dir :: jsstring
  argv_filter :: "jsstring option"
  argv_parallel :: nat
  argv_force :: bool
  argv_dry_run :: bool
  argv_convert :: bool

text \<open>\<open>fileExists\<close>: whether \<open>access\<close> succeeds on the path.\<close>

definition fileExists :: "jsstring \<Rightarrow> io \<Rightarrow> bool" where
  "fileExists path s = (path \<in> files s)"

text \<open>
  \<open>downloadFile\<close> returns \<open>true\<close> for a download and \<open>false\<close> for a skip, or
  throws. The write stream creates the file, so a pipeline that fails midway leaves it.
\<close>

definition downloadFile ::
  "env \<Rightarrow> jsstring \<Rightarrow> jsstring \<Rightarrow> bool \<Rightarrow> bool \<Rightarrow> io \<Rightarrow> (error + bool) \<times> io" where
  "downloadFile e url outputPath force dryRun s =
     (if \<not> force \<and> fileExists outputPath s then (Inr False, s)
      else if dryRun then (Inr False, emit (ConsoleLog (WouldDownload url outputPath)) s)
      else
        (let s1 = emit (Fetch url) s in
         case fetch e url of
           None \<Rightarrow> (Inl NetworkError, s1)
         | Some response \<Rightarrow>
             if \<not> ok response then (Inl (DownloadFailed url (statusText response)), s1)
             else
               (case body response of
                  None \<Rightarrow> (Inl (NoResponseBody url), s1)
                | Some t \<Rightarrow>
                    (let s2 = emit (CreateWriteStream outputPath) s1 in
                     case t of
                       Complete \<Rightarrow> (Inr True, s2\<lparr>files := insert outputPath (files s2)\<rparr>)
                     | PartialFile \<Rightarrow> (Inl StreamError, s2\<lparr>files := insert outputPath (files s2)\<rparr>)
                     | NotOpened \<Rightarrow> (Inl StreamError, s2)))))"

text \<open>\<^verbatim>\<open>inputPath.replace(/\.mp3$/, ".m4a")\<close>: only a suffix \<^verbatim>\<open>.mp3\<close> at the very
  end of the path is replaced; any other path stays as it is.\<close>

definition m4aPath :: "jsstring \<Rightarrow> jsstring" where
  "m4aPath inputPath =
     (let n = length inputPath - 4
      in if 4 \<le> length inputPath \<and> drop n inputPath = js ''.mp3''
         then take n inputPath @ js ''.m4a'' else inputPath)"

text \<open>
  \<open>convertToM4A\<close>, with its parameters in the source's order (\<open>dryRun\<close> before
  \<open>force\<close>). A successful encoder run leaves the output file.
\<close>

definition convertToM4A ::
  "env \<Rightarrow> jsstring \<Rightarrow> bool \<Rightarrow> bool \<Rightarrow> io \<Rightarrow> (error + bool) \<times> io" where
  "convertToM4A e inputPath dryRun force s =
     (let outputPath = m4aPath inputPath in
      if \<not> force \<and> fileExists outputPath s then (Inr False, s)
      else if dryRun
      then (Inr True, emit (ConsoleLog (WouldConvert inputPath outputPath)) s)
      else
        (let args = [js ''-i'', inputPath, js ''-c:a'', js ''aac'', js ''-b:a'', js ''96k'',
                     outputPath];
             s1 = emit (ExecFileSync (js ''ffmpeg'') args) s
         in if ffmpeg e args then (Inr True, s1\<lparr>files := insert outputPath (files s1)\<rparr>)
            else (Inl ExecError, s1)))"

section \<open>The downloader: one task\<close>

text \<open>\<open>path.join\<close> of an absolute, normalised directory and a file name without
  separators (POSIX).\<close>

definition pathJoin :: "jsstring \<Rightarrow> jsstring \<Rightarrow> jsstring" where
  "pathJoin dir filename =
     (if dir \<noteq> [] \<and> last dir = 0x2F then dir @ filename else dir @ js ''/'' @ filename)"

text \<open>The \<^verbatim>\<open>try\<close> block of a task: transfer, optional transcoding, one tick.\<close>

definition taskBody ::
  "env \<Rightarrow> argv \<Rightarrow> jsstring \<Rightarrow> jsstring \<Rightarrow> jsstring \<Rightarrow> io \<Rightarrow> (error + unit) \<times> io" where
  "taskBody e a url filename outputPath s =
     (case downloadFile e url outputPath (argv_force a) (argv_dry_run a) s of
        (Inl err, s1) \<Rightarrow> (Inl err, s1)
      | (Inr wasDownloaded, s1) \<Rightarrow>
          if argv_convert a
          then
            (case convertToM4A e outputPath (argv_dry_run a) (argv_force a) s1 of
               (Inl err, s2) \<Rightarrow> (Inl err, s2)
             | (Inr wasConverted, s2) \<Rightarrow>
                 (Inr (), emit (Tick filename (if wasConverted then Converted else Skipped)) s2))
          else (Inr (), emit (Tick filename (if wasDownloaded then Downloaded else Skipped)) s1))"

text \<open>The two constants a task computes first: its file name and its output path.\<close>

definition taskFilename :: "Podcast \<Rightarrow> jsstring" where
  "taskFilename podcast = sanitizeFilename (title podcast) @ js ''.mp3''"

definition taskOutputPath :: "jsstring \<Rightarrow> Podcast \<Rightarrow> jsstring" where
  "taskOutputPath absoluteDownloadDir podcast =
     pathJoin absoluteDownloadDir (taskFilename podcast)"

text \<open>
  The function handed to the limiter: the \<^verbatim>\<open>try\<close> block and its \<^verbatim>\<open>catch\<close>.
  Its result is how the task's promise settles (\<open>Inl\<close>: it rejects).
\<close>

definition downloadTask ::
  "env \<Rightarrow> argv \<Rightarrow> jsstring \<Rightarrow> Podcast \<Rightarrow> io \<Rightarrow> (error + unit) \<times> io" where
  "downloadTask e a absoluteDownloadDir podcast s =
     (let filename = taskFilename podcast;
          outputPath = taskOutputPath absoluteDownloadDir podcast
      in case taskBody e a (downloadLink podcast) filename outputPath s of
           (Inl err, s1) \<Rightarrow>
             (Inr (), emit (ConsoleError (FailedToDownload (title podcast)) (Some err)) s1)
         | (Inr u, s1) \<Rightarrow> (Inr (), s1))"

text \<open>What the \<^verbatim>\<open>try\<close> block of a task throws, if it throws.\<close>

definition taskThrows :: "env \<Rightarrow> argv \<Rightarrow> jsstring \<Rightarrow> Podcast \<Rightarrow> io \<Rightarrow> error option" where
  "taskThrows e a absoluteDownloadDir podcast s =
     (case fst (taskBody e a (downloadLink podcast) (taskFilename podcast)
                  (taskOutputPath absoluteDownloadDir podcast) s) of
        Inl err \<Rightarrow> Some err
      | Inr u \<Rightarrow> None)"

section \<open>The downloader: start-up\<close>

text \<open>
  What \<open>main\<close> has decided when it reaches the limiter: the process has exited with a
  code, there is nothing to download, or the tasks are handed over.
\<close>

datatype startup = Abort nat | NoWork | Dispatch "Podcast list" jsstring

text \<open>The filter; an absent or empty pattern is falsy and filters nothing.\<close>

definition applyFilter ::
  "env \<Rightarrow> argv \<Rightarrow> Podcast list \<Rightarrow> io \<Rightarrow> (error + Podcast list) \<times> io" where
  "applyFilter e a podcasts s =
     (case argv_filter a of
        None \<Rightarrow> (Inr podcasts, s)
      | Some pat \<Rightarrow>
          if pat = [] then (Inr podcasts, s)
          else
            (case regExp e pat of
               None \<Rightarrow> (Inl RegExpError, s)
             | Some test \<Rightarrow>
                 (let kept = filter (\<lambda>p. test (title p)) podcasts
                  in (Inr kept, emit (ConsoleLog (FilteredTo (length kept) pat)) s))))"

text \<open>
  \<open>main\<close> of the downloader up to the creation of the limiter. \<open>process.exit(1)\<close>
  ends the process at once.
\<close>

definition startup :: "env \<Rightarrow> argv \<Rightarrow> io \<Rightarrow> startup \<times> io" where
  "startup e a s =
     (let s1 = emit (ReadFile (argv_input a)) s in
      case readFile e (argv_input a) of
        None \<Rightarrow> (Abort 1, emit (ConsoleError ErrorColon (Some ReadError)) s1)
      | Some jsonContent \<Rightarrow>
          (case jsonParse e jsonContent of
             None \<Rightarrow> (Abort 1, emit (ConsoleError ErrorColon (Some SyntaxError)) s1)
           | Some podcasts \<Rightarrow>
               (let s2 = emit (ExecSync (js ''ffmpeg -version'')) s1 in
                if \<not> ffmpegVersion e
                then (Abort 1, emit (ConsoleError FfmpegNotInstalled None) s2)
                else
                  (case applyFilter e a podcasts s2 of
                     (Inl err, s3) \<Rightarrow> (Abort 1, emit (ConsoleError ErrorColon (Some err)) s3)
                   | (Inr kept, s3) \<Rightarrow>
                       if length kept = 0
                       then (NoWork, emit (ConsoleLog NoPodcastsToDownload) s3)
                       else
                         (let absoluteDownloadDir = resolve e (argv_download_dir a);
                              s4 = emit (Mkdir absoluteDownloadDir) s3
                          in if mkdir e absoluteDownloadDir
                             then (Dispatch kept absoluteDownloadDir,
                                   s4\<lparr>files := insert absoluteDownloadDir (files s4)\<rparr>)
                             else (Abort 1,
                                   emit (ConsoleError ErrorColon (Some MkdirError)) s4))))))"

section \<open>The downloader: the limiter and the run\<close>

text \<open>
  Modelled from the spec: the concurrency limiter \<^verbatim>\<open>pLimit\<close> (the package
  \<^verbatim>\<open>p-limit\<close>, which the downloader imports and which is not among the sources).
  The spec's words: tasks are dispatched under a limiter capped at \<open>parallelism\<close> tasks
  in flight; a new task may start as soon as any task in flight completes. Here: the
  tasks wait in catalog order; \<open>Start\<close> moves the first waiting task into flight when
  fewer than \<open>parallelism\<close> tasks are in flight; \<open>Settle i\<close> completes the \<open>i\<close>-th task
  in flight. A task's effects are attributed to the moment it settles. An action that is
  not enabled has no successor state.
\<close>

record sched =
  pending :: "Podcast list"
  active :: "Podcast list"
  settled :: "(Podcast \<times> (error + unit)) list"
  world :: io

datatype action = Start | Settle nat

definition initSched :: "Podcast list \<Rightarrow> io \<Rightarrow> sched" where
  "initSched podcasts s = \<lparr>pending = podcasts, active = [], settled = [], world = s\<rparr>"

fun schedStep :: "env \<Rightarrow> argv \<Rightarrow> jsstring \<Rightarrow> action \<Rightarrow> sched \<Rightarrow> sched option" where
  "schedStep e a dir Start q =
     (case pending q of
        [] \<Rightarrow> None
      | p # ps \<Rightarrow>
          if length (active q) < argv_parallel a
          then Some (q\<lparr>pending := ps, active := active q @ [p]\<rparr>)
          else None)"
| "schedStep e a dir (Settle i) q =
     (if i < length (active q)
      then
        (let p = active q ! i;
             (r, s') = downloadTask e a dir p (world q)
         in Some (q\<lparr>active := take i (active q) @ drop (Suc i) (active q),
                     settled := settled q @ [(p, r)],
                     world := s'\<rparr>))
      else None)"

text \<open>A schedule is one interleaving of starts and completions.\<close>

fun runSchedule ::
  "env \<Rightarrow> argv \<Rightarrow> jsstring \<Rightarrow> action list \<Rightarrow> sched \<Rightarrow> sched option" where
  "runSchedule e a dir [] q = Some q"
| "runSchedule e a dir (act # acts) q =
     (case schedStep e a dir act q of
        None \<Rightarrow> None
      | Some q' \<Rightarrow> runSchedule e a dir acts q')"

text \<open>The schedule that runs \<open>n\<close> tasks one after the other, and the one that lets
  every task in flight complete.\<close>

definition sequentialSchedule :: "nat \<Rightarrow> action list" where
  "sequentialSchedule n = concat (replicate n [Start, Settle 0])"

definition drainSchedule :: "nat \<Rightarrow> action list" where
  "drainSchedule n = replicate n (Settle 0)"

text \<open>The first task promise that rejected, if any: what \<open>Promise.all\<close> rejects with.\<close>

fun firstRejection :: "(Podcast \<times> (error + unit)) list \<Rightarrow> error option" where
  "firstRejection [] = None"
| "firstRejection ((p, Inl err) # rs) = Some err"
| "firstRejection ((p, Inr u) # rs) = firstRejection rs"

text \<open>
  \<open>main\<close> of the downloader under a schedule, from the start-up to the exit code.
  \<open>Promise.all\<close> resolves when every task has settled and rejects as soon as one
  rejects, which the outer \<^verbatim>\<open>catch\<close> turns into exit code 1. \<open>None\<close>: the schedule
  is not a run of the limiter, or it stops before the promise is settled.
\<close>

definition downloadMain :: "env \<Rightarrow> argv \<Rightarrow> action list \<Rightarrow> io \<Rightarrow> (nat \<times> io) option" where
  "downloadMain e a schedule s =
     (case startup e a s of
        (Abort code, s1) \<Rightarrow> Some (code, s1)
      | (NoWork, s1) \<Rightarrow> Some (0, s1)
      | (Dispatch podcasts dir, s1) \<Rightarrow>
          (case runSchedule e a dir schedule (initSched podcasts s1) of
             None \<Rightarrow> None
           | Some q \<Rightarrow>
               (case firstRejection (settled q) of
                  Some err \<Rightarrow> Some (1, emit (ConsoleError ErrorColon (Some err)) (world q))
                | None \<Rightarrow>
                    if pending q = [] \<and> active q = []
                    then Some (0, emit (ConsoleLog DownloadsComplete) (world q))
                    else None)))"

text \<open>Reading a trace.\<close>

fun isTick :: "event \<Rightarrow> bool" where
  "isTick (Tick f st) = True"
| "isTick ev = False"

fun isConsoleError :: "event \<Rightarrow> bool" where
  "isConsoleError (ConsoleError m err) = True"
| "isConsoleError ev = False"

fun isExecSync :: "event \<Rightarrow> bool" where
  "isExecSync (ExecSync c) = True"
| "isExecSync ev = False"

definition ticks :: "io \<Rightarrow> event list" where
  "ticks s = filter isTick (trace s)"

definition errorLines :: "io \<Rightarrow> event list" where
  "errorLines s = filter isConsoleError (trace s)"

text \<open>Network calls and file-system writes.\<close>

fun isNetworkCall :: "event \<Rightarrow> bool" where
  "isNetworkCall (Fetch u) = True"
| "isNetworkCall ev = False"

fun isFileWrite :: "event \<Rightarrow> bool" where
  "isFileWrite (CreateWriteStream p) = True"
| "isFileWrite (WriteFile p c) = True"
| "isFileWrite (Mkdir p) = True"
| "isFileWrite ev = False"

section \<open>Example inputs\<close>

definition ep1 :: Podcast where
  "ep1 = \<lparr>title = js ''A - Ep1'', releaseDate = js ''2020-01-01T00:00:00.000Z'',
          downloadLink = js ''http://x/1.mp3'', description = []\<rparr>"

definition ep2 :: Podcast where
  "ep2 = \<lparr>title = js ''B - Ep2'', releaseDate = js ''2021-01-01T00:00:00.000Z'',
          downloadLink = js ''http://x/2.mp3'', description = []\<rparr>"

text \<open>
  A world where the catalog holds both episodes, the first download is refused by the
  server and everything else works.
\<close>

definition env0 :: env where
  "env0 = \<lparr>readFile = (\<lambda>p. Some (js ''catalog'')),
           jsonParse = (\<lambda>c. Some [ep1, ep2]),
           ffmpegVersion = True,
           regExp = (\<lambda>pat. None),
           resolve = (\<lambda>p. js ''/'' @ p),
           mkdir = (\<lambda>p. True),
           fetch = (\<lambda>u. if u = js ''http://x/1.mp3''
                         then Some (Response False (js ''Not Found'') None)
                         else Some (Response True (js ''OK'') (Some Complete))),
           ffmpeg = (\<lambda>args. True),
           scrapePodcasts = Some [ep2],
           writeFile = (\<lambda>p. True)\<rparr>"

text \<open>The same world with a catalog file that does not parse.\<close>

definition envMalformed :: env where
  "envMalformed = env0\<lparr>jsonParse := (\<lambda>c. None)\<rparr>"

definition argv0 :: argv where
  "argv0 = \<lparr>argv_input = js ''podcasts.json'', argv_download_dir = js ''downloads'',
            argv_filter = None, argv_parallel = 2, argv_force = False,
            argv_dry_run = False, argv_convert = False\<rparr>"

definition argv1 :: argv where
  "argv1 = argv0\<lparr>argv_parallel := 1\<rparr>"

definition io0 :: io where
  "io0 = \<lparr>files = {}, trace = []\<rparr>"

section \<open>Properties of sanitization\<close>

lemma isInvalidChar_dash: "\<not> isInvalidChar 0x2D"
  by (simp add: isInvalidChar_def)

lemma isWhitespace_dash: "\<not> isWhitespace 0x2D"
  by (simp add: isWhitespace_def)

lemma isInvalidChar_underscore: "\<not> isInvalidChar 0x5F"
  by (simp add: isInvalidChar_def)

lemma isWhitespace_underscore: "\<not> isWhitespace 0x5F"
  by (simp add: isWhitespace_def)

lemma replaceInvalid_clean: "\<forall>c \<in> set (replaceInvalid s). \<not> isInvalidChar c"
  by (auto simp: replaceInvalid_def isInvalidChar_dash)

lemma replaceInvalid_id: "\<forall>c \<in> set s. \<not> isInvalidChar c \<Longrightarrow> replaceInvalid s = s"
  by (induction s) (auto simp: replaceInvalid_def)

lemma replaceWhitespace_no_invalid:
  "\<forall>c \<in> set s. \<not> isInvalidChar c \<Longrightarrow> \<forall>c \<in> set (replaceWhitespace s). \<not> isInvalidChar c"
proof (induction s rule: replaceWhitespace.induct)
  case 1
  show ?case by simp
next
  case (2 c cs)
  show ?case
  proof (cases "isWhitespace c")
    case True
    have "\<forall>x \<in> set (dropWhile isWhitespace cs). \<not> isInvalidChar x"
      using "2.prems" by (auto dest: set_dropWhileD)
    with "2.IH"(1) [OF True] True show ?thesis
      by (simp add: isInvalidChar_underscore)
  next
    case False
    with "2.IH"(2) "2.prems" show ?thesis by simp
  qed
qed

lemma replaceWhitespace_no_space: "\<forall>c \<in> set (replaceWhitespace s). \<not> isWhitespace c"
proof (induction s rule: replaceWhitespace.induct)
  case 1
  show ?case by simp
next
  case (2 c cs)
  show ?case
  proof (cases "isWhitespace c")
    case True
    with "2.IH"(1) show ?thesis by (simp add: isWhitespace_underscore)
  next
    case False
    with "2.IH"(2) show ?thesis by simp
  qed
qed

lemma replaceWhitespace_id: "\<forall>c \<in> set s. \<not> isWhitespace c \<Longrightarrow> replaceWhitespace s = s"
proof (induction s)
  case Nil
  show ?case by simp
next
  case (Cons c cs)
  then show ?case by simp
qed

text \<open>
  C10. \<open>sanitizeFilename\<close> is defined on every string, the empty one included (its
  recursion terminates, and the empty string is mapped to itself), and sanitizing twice
  is sanitizing once.
\<close>

theorem sanitizeFilename_idempotent:
  "sanitizeFilename [] = [] \<and> sanitizeFilename (sanitizeFilename x) = sanitizeFilename x"
proof -
  have clean: "\<forall>c \<in> set (sanitizeFilename x). \<not> isInvalidChar c"
    unfolding sanitizeFilename_def
    by (rule replaceWhitespace_no_invalid) (rule replaceInvalid_clean)
  have nospace: "\<forall>c \<in> set (sanitizeFilename x). \<not> isWhitespace c"
    unfolding sanitizeFilename_def by (rule replaceWhitespace_no_space)
  have "replaceInvalid (sanitizeFilename x) = sanitizeFilename x"
    using clean by (rule replaceInvalid_id)
  moreover have "replaceWhitespace (sanitizeFilename x) = sanitizeFilename x"
    using nospace by (rule replaceWhitespace_id)
  ultimately have "sanitizeFilename (sanitizeFilename x) = sanitizeFilename x"
    by (simp add: sanitizeFilename_def [of "sanitizeFilename x"])
  moreover have "sanitizeFilename [] = []"
    by (simp add: sanitizeFilename_def replaceInvalid_def)
  ultimately show ?thesis by simp
qed

section \<open>Properties of the merge\<close>

lemma uniqueNewPodcasts_keys:
  "identityKey ` set newPodcasts
     \<subseteq> identityKey ` set existing \<union> identityKey ` set (uniqueNewPodcasts existing newPodcasts)"
  by (auto simp: uniqueNewPodcasts_def)

lemma uniqueNewPodcasts_covered:
  "identityKey ` set newPodcasts \<subseteq> identityKey ` set existing
     \<Longrightarrow> uniqueNewPodcasts existing newPodcasts = []"
  by (auto simp: uniqueNewPodcasts_def filter_empty_conv)

text \<open>
  C6. Merging the same incoming list a second time changes nothing:
  \<open>merge (merge E N) N = merge E N\<close> for every catalog \<open>E\<close> and every list \<open>N\<close>.
\<close>

theorem mergePodcasts_idempotent:
  "mergePodcasts (mergePodcasts E N) N = mergePodcasts E N"
proof -
  have "identityKey ` set N \<subseteq> identityKey ` set (mergePodcasts E N)"
    using uniqueNewPodcasts_keys [of N E] by (simp add: mergePodcasts_def image_Un)
  then have "uniqueNewPodcasts (mergePodcasts E N) N = []"
    by (rule uniqueNewPodcasts_covered)
  then show ?thesis
    by (simp add: mergePodcasts_def [of "mergePodcasts E N"])
qed

lemma uniqueNewPodcasts_Nil: "uniqueNewPodcasts [] N = N"
  by (simp add: uniqueNewPodcasts_def)

lemma uniqueNewPodcasts_disjoint:
  "identityKey ` set (uniqueNewPodcasts E N) \<inter> identityKey ` set E = {}"
  by (auto simp: uniqueNewPodcasts_def)

lemma uniqueNewPodcasts_distinct:
  "distinct (map identityKey N) \<Longrightarrow> distinct (map identityKey (uniqueNewPodcasts E N))"
  by (simp add: uniqueNewPodcasts_def distinct_map_filter)

lemma js_simps:
  "js [] = []" "js (c # cs) = of_nat (of_char c) # js cs"
  by (simp_all add: js_def)

lemma ep_keys: "identityKey ep1 \<noteq> identityKey ep2"
  by (simp add: identityKey_def ep1_def ep2_def js_def)

lemma ep_fields:
  "title ep1 = js ''A - Ep1''" "downloadLink ep1 = js ''http://x/1.mp3''"
  "title ep2 = js ''B - Ep2''" "downloadLink ep2 = js ''http://x/2.mp3''"
  by (simp_all add: ep1_def ep2_def)

lemma env0_fields:
  "readFile env0 p = Some (js ''catalog'')"
  "jsonParse env0 c = Some [ep1, ep2]"
  "ffmpegVersion env0 = True"
  "resolve env0 p = js ''/'' @ p"
  "mkdir env0 p = True"
  "fetch env0 u = (if u = js ''http://x/1.mp3''
                         then Some (Response False (js ''Not Found'') None)
                         else Some (Response True (js ''OK'') (Some Complete)))"
  "ffmpeg env0 args = True"
  by (simp_all add: env0_def)

lemma argv0_fields:
  "argv_input argv0 = js ''podcasts.json''" "argv_download_dir argv0 = js ''downloads''"
  "argv_filter argv0 = None" "argv_parallel argv0 = 2" "argv_force argv0 = False"
  "argv_dry_run argv0 = False" "argv_convert argv0 = False"
  by (simp_all add: argv0_def)

lemma argv1_fields:
  "argv_input argv1 = js ''podcasts.json''" "argv_download_dir argv1 = js ''downloads''"
  "argv_filter argv1 = None" "argv_parallel argv1 = 1" "argv_force argv1 = False"
  "argv_dry_run argv1 = False" "argv_convert argv1 = False"
  by (simp_all add: argv1_def argv0_def)

lemma filename1: "taskFilename ep1 = js ''A_-_Ep1.mp3''"
  by (simp add: taskFilename_def ep_fields sanitizeFilename_def replaceInvalid_def js_simps
      isInvalidChar_def isWhitespace_def)

lemma filename2: "taskFilename ep2 = js ''B_-_Ep2.mp3''"
  by (simp add: taskFilename_def ep_fields sanitizeFilename_def replaceInvalid_def js_simps
      isInvalidChar_def isWhitespace_def)

lemmas run_defs = downloadMain_def startup_def applyFilter_def initSched_def
  downloadTask_def taskBody_def downloadFile_def convertToM4A_def taskOutputPath_def
  pathJoin_def fileExists_def emit_def Let_def taskThrows_def ticks_def errorLines_def

lemmas run_facts = ep_fields env0_fields argv0_fields argv1_fields filename1 filename2 js_simps

lemma startup0: "startup env0 argv0 io0 =
   (Dispatch [ep1, ep2] (js ''/downloads''),
    \<lparr>files = {js ''/downloads''},
      trace = [ReadFile (js ''podcasts.json''), ExecSync (js ''ffmpeg -version''),
               Mkdir (js ''/downloads'')]\<rparr>)"
  by (simp add: run_defs run_facts io0_def)

text \<open>
  C1, as the code has it. The merge only filters the incoming list against the existing
  catalog: \<open>merge [] N\<close> is \<open>N\<close> itself, and the result is free of duplicate
  identity keys exactly when \<open>E\<close> is and the incoming records that are new to \<open>E\<close>
  are among themselves; in particular whenever neither \<open>E\<close> nor \<open>N\<close> has a duplicate
  key.
\<close>

theorem mergePodcasts_distinct_keys:
  "mergePodcasts [] N = N \<and>
   (distinct (map identityKey (mergePodcasts E N)) \<longleftrightarrow>
      distinct (map identityKey E) \<and> distinct (map identityKey (uniqueNewPodcasts E N))) \<and>
   (distinct (map identityKey E) \<and> distinct (map identityKey N) \<longrightarrow>
      distinct (map identityKey (mergePodcasts E N)))"
proof -
  have a: "mergePodcasts [] N = N"
    by (simp add: mergePodcasts_def uniqueNewPodcasts_Nil)
  have b: "distinct (map identityKey (mergePodcasts E N)) \<longleftrightarrow>
      distinct (map identityKey E) \<and> distinct (map identityKey (uniqueNewPodcasts E N))"
    using uniqueNewPodcasts_disjoint [of E N]
    by (auto simp: mergePodcasts_def)
  from a b uniqueNewPodcasts_distinct [of N E] show ?thesis by blast
qed

theorem mergePodcasts_distinct_keys_witness:
  "distinct (map identityKey [ep1]) \<and> distinct (map identityKey [ep1, ep2]) \<and>
   distinct (map identityKey (mergePodcasts [ep1] [ep1, ep2])) \<and>
   mergePodcasts [ep1] [ep1, ep2] = [ep1, ep2]"
  using mergePodcasts_distinct_keys [of "[ep1, ep2]" "[ep1]"] ep_keys
  by (simp add: mergePodcasts_def uniqueNewPodcasts_def)

text \<open>
  The claim as stated fails: an incoming list that repeats a record is appended with
  the repetition, also onto the empty catalog.
\<close>

theorem mergePodcasts_duplicates_counterexample:
  "mergePodcasts [] [ep1, ep1] = [ep1, ep1] \<and>
   \<not> distinct (map identityKey (mergePodcasts [] [ep1, ep1]))"
  by (simp add: mergePodcasts_def uniqueNewPodcasts_def)

section \<open>Properties of transfer and transcoding\<close>

text \<open>
  C7. Without \<open>force\<close> and with the destination present, \<open>downloadFile\<close> returns
  \<open>false\<close> (skipped) and leaves the world as it was: no event at all, so no network call;
  so does \<open>convertToM4A\<close> when its output path is present: no subprocess. On a dry run
  \<open>downloadFile\<close> returns \<open>false\<close>, the set of files is unchanged, and what it adds to
  the trace holds no network call and no file-system write.
\<close>

theorem skipped_without_io:
  "(\<not> force \<and> fileExists outputPath s \<longrightarrow>
      downloadFile e url outputPath force dryRun s = (Inr False, s)) \<and>
   (\<not> force \<and> fileExists (m4aPath inputPath) s \<longrightarrow>
      convertToM4A e inputPath dryRun force s = (Inr False, s)) \<and>
   (dryRun \<longrightarrow>
      fst (downloadFile e url outputPath force dryRun s) = Inr False \<and>
      files (snd (downloadFile e url outputPath force dryRun s)) = files s \<and>
      (\<exists>evs. trace (snd (downloadFile e url outputPath force dryRun s)) = trace s @ evs \<and>
             filter isNetworkCall evs = [] \<and> filter isFileWrite evs = []))"
  by (simp add: downloadFile_def convertToM4A_def emit_def)

theorem skipped_without_io_witness:
  "\<not> False \<and> fileExists (js ''a.mp3'') \<lparr>files = {js ''a.mp3'', js ''a.m4a''}, trace = []\<rparr> \<and>
   fileExists (m4aPath (js ''a.mp3'')) \<lparr>files = {js ''a.mp3'', js ''a.m4a''}, trace = []\<rparr> \<and>
   downloadFile env0 (js ''http://x/2.mp3'') (js ''a.mp3'') False True
       \<lparr>files = {js ''a.mp3'', js ''a.m4a''}, trace = []\<rparr>
     = (Inr False, \<lparr>files = {js ''a.mp3'', js ''a.m4a''}, trace = []\<rparr>) \<and>
   convertToM4A env0 (js ''a.mp3'') True False
       \<lparr>files = {js ''a.mp3'', js ''a.m4a''}, trace = []\<rparr>
     = (Inr False, \<lparr>files = {js ''a.mp3'', js ''a.m4a''}, trace = []\<rparr>)"
  using skipped_without_io [where force = False and outputPath = "js ''a.mp3''"
      and s = "\<lparr>files = {js ''a.mp3'', js ''a.m4a''}, trace = []\<rparr>" and e = env0
      and url = "js ''http://x/2.mp3''" and dryRun = True and inputPath = "js ''a.mp3''"]
  by (simp add: fileExists_def m4aPath_def js_simps)

text \<open>
  C4. What \<open>convertToM4A\<close> does on a dry run: it runs no subprocess (it adds one
  console line at most), but unless the output is present and \<open>force\<close> is off it
  returns \<open>true\<close>, which the task reports as \<open>converted\<close>, not \<open>skipped\<close>. So it is
  for the input \<^verbatim>\<open>a.mp3\<close> in an empty directory.
\<close>

theorem convertToM4A_dry_run:
  "convertToM4A e inputPath True force s =
     (if \<not> force \<and> fileExists (m4aPath inputPath) s then (Inr False, s)
      else (Inr True, emit (ConsoleLog (WouldConvert inputPath (m4aPath inputPath))) s)) \<and>
   convertToM4A env0 (js ''a.mp3'') True False io0 =
     (Inr True, \<lparr>files = {}, trace = [ConsoleLog (WouldConvert (js ''a.mp3'') (js ''a.m4a''))]\<rparr>)"
  by (simp add: convertToM4A_def fileExists_def io0_def emit_def m4aPath_def js_simps)

section \<open>Properties of the start-up\<close>

text \<open>
  The encoder check is made exactly when the catalog has been read and parsed, once,
  whatever \<open>argv_convert\<close> is.
\<close>

lemma startup_encoder_check:
  "filter isExecSync (trace (snd (startup e a s))) =
     filter isExecSync (trace s) @
       (case readFile e (argv_input a) of
          None \<Rightarrow> []
        | Some c \<Rightarrow>
            (case jsonParse e c of
               None \<Rightarrow> []
             | Some podcasts \<Rightarrow> [ExecSync (js ''ffmpeg -version'')]))"
  by (simp add: startup_def applyFilter_def emit_def Let_def
      split: option.split prod.split sum.split)

text \<open>
  C2. What the start-up does when conversion is not requested and the encoder is
  absent: it still runs \<^verbatim>\<open>ffmpeg -version\<close>, once, after reading the catalog and
  before any task, and exits with code 1.
\<close>

theorem startup_checks_ffmpeg_without_convert:
  "argv_convert argv0 = False \<and>
   startup (env0\<lparr>ffmpegVersion := False\<rparr>) argv0 io0 =
     (Abort 1, \<lparr>files = {}, trace = [ReadFile (js ''podcasts.json''),
                  ExecSync (js ''ffmpeg -version''), ConsoleError FfmpegNotInstalled None]\<rparr>) \<and>
   downloadMain (env0\<lparr>ffmpegVersion := False\<rparr>) argv0 schedule io0 =
     Some (1, \<lparr>files = {}, trace = [ReadFile (js ''podcasts.json''),
                  ExecSync (js ''ffmpeg -version''), ConsoleError FfmpegNotInstalled None]\<rparr>)"
  by (simp add: downloadMain_def startup_def env0_def argv0_def io0_def emit_def)

text \<open>
  C5, as the code has it. In the downloader a catalog that does not parse is fatal:
  whatever the schedule, \<open>main\<close> exits with code 1 after reading the file and printing
  the error, and does nothing else. In the scraper \<open>readExistingPodcasts\<close> catches the
  failure, prints it and returns the empty catalog.
\<close>

theorem parse_failure:
  "(readFile e (argv_input a) = Some c \<and> jsonParse e c = None \<longrightarrow>
      downloadMain e a schedule s =
        Some (1, emit (ConsoleError ErrorColon (Some SyntaxError))
                   (emit (ReadFile (argv_input a)) s))) \<and>
   (filePath \<in> files s' \<and> readFile e filePath = Some c' \<and> jsonParse e c' = None \<longrightarrow>
      readExistingPodcasts e filePath s' =
        ([], emit (ConsoleError ErrorReadingExisting (Some SyntaxError))
               (emit (ReadFile filePath) s')))"
  by (simp add: downloadMain_def startup_def readExistingPodcasts_def)

theorem parse_failure_witness:
  "readFile envMalformed (argv_input argv0) = Some (js ''catalog'') \<and>
   jsonParse envMalformed (js ''catalog'') = None \<and>
   js ''podcasts.json'' \<in> files \<lparr>files = {js ''podcasts.json''}, trace = []\<rparr> \<and>
   downloadMain envMalformed argv0 [] io0 =
     Some (1, \<lparr>files = {}, trace = [ReadFile (js ''podcasts.json''),
                  ConsoleError ErrorColon (Some SyntaxError)]\<rparr>) \<and>
   readExistingPodcasts envMalformed (js ''podcasts.json'')
       \<lparr>files = {js ''podcasts.json''}, trace = []\<rparr> =
     ([], \<lparr>files = {js ''podcasts.json''}, trace = [ReadFile (js ''podcasts.json''),
              ConsoleError ErrorReadingExisting (Some SyntaxError)]\<rparr>)"
proof -
  have r: "readFile envMalformed p = Some (js ''catalog'')" for p
    by (simp add: envMalformed_def env0_def)
  have j: "jsonParse envMalformed c = None" for c
    by (simp add: envMalformed_def)
  have i: "argv_input argv0 = js ''podcasts.json''"
    by (simp add: argv0_def)
  show ?thesis
    using parse_failure [where e = envMalformed and a = argv0
      and c = "js ''catalog''" and schedule = "[]" and s = io0
      and filePath = "js ''podcasts.json''" and c' = "js ''catalog''"
      and s' = "\<lparr>files = {js ''podcasts.json''}, trace = []\<rparr>"]
    by (simp add: r j i io0_def emit_def)
qed

text \<open>
  The claim as stated fails for the scraper: with a catalog file that does not parse,
  its \<open>main\<close> goes on with the empty catalog, overwrites the file with the scraped
  records and exits with code 0.
\<close>

theorem scraper_survives_malformed_catalog_counterexample:
  "jsonParse envMalformed (js ''catalog'') = None \<and>
   scraperMain envMalformed (js ''podcasts.json'')
       \<lparr>files = {js ''/podcasts.json''}, trace = []\<rparr> =
     (0, \<lparr>files = {js ''/podcasts.json''},
          trace = [ReadFile (js ''/podcasts.json''),
                   ConsoleError ErrorReadingExisting (Some SyntaxError),
                   ConsoleLog (FoundExisting 0),
                   ConsoleLog (FoundNew 1),
                   WriteFile (js ''/podcasts.json'') [ep2],
                   ConsoleLog (SuccessfullySaved 1 (js ''/podcasts.json''))]\<rparr>)"
  by (simp add: scraperMain_def readExistingPodcasts_def envMalformed_def env0_def emit_def
      js_simps mergePodcasts_def mergePodcastsLog_def uniqueNewPodcasts_def Let_def)

section \<open>Properties of a task\<close>

lemma downloadFile_quiet:
  "filter isTick (trace (snd (downloadFile e url out f d s))) = filter isTick (trace s) \<and>
   filter isConsoleError (trace (snd (downloadFile e url out f d s)))
     = filter isConsoleError (trace s)"
  by (simp add: downloadFile_def emit_def Let_def split: option.split transfer.split)

lemma convertToM4A_quiet:
  "filter isTick (trace (snd (convertToM4A e inp d f s))) = filter isTick (trace s) \<and>
   filter isConsoleError (trace (snd (convertToM4A e inp d f s)))
     = filter isConsoleError (trace s)"
  by (simp add: convertToM4A_def emit_def Let_def)

lemma taskBody_events:
  "taskBody e a url fname out s = (r, s') \<Longrightarrow>
   filter isConsoleError (trace s') = filter isConsoleError (trace s) \<and>
   (case r of
      Inl err \<Rightarrow> filter isTick (trace s') = filter isTick (trace s)
    | Inr u \<Rightarrow> (\<exists>st. filter isTick (trace s') = filter isTick (trace s) @ [Tick fname st]))"
proof -
  assume tb: "taskBody e a url fname out s = (r, s')"
  obtain r1 s1 where d: "downloadFile e url out (argv_force a) (argv_dry_run a) s = (r1, s1)"
    by (cases "downloadFile e url out (argv_force a) (argv_dry_run a) s")
  have q1: "filter isTick (trace s1) = filter isTick (trace s)"
    "filter isConsoleError (trace s1) = filter isConsoleError (trace s)"
    using downloadFile_quiet [of e url out "argv_force a" "argv_dry_run a" s] d by simp_all
  obtain r2 s2 where c: "convertToM4A e out (argv_dry_run a) (argv_force a) s1 = (r2, s2)"
    by (cases "convertToM4A e out (argv_dry_run a) (argv_force a) s1")
  have q2: "filter isTick (trace s2) = filter isTick (trace s1)"
    "filter isConsoleError (trace s2) = filter isConsoleError (trace s1)"
    using convertToM4A_quiet [of e out "argv_dry_run a" "argv_force a" s1] c by simp_all
  show ?thesis
    using tb d c q1 q2
    by (auto simp: taskBody_def emit_def split: sum.splits if_splits)
qed

lemma downloadTask_fulfils: "fst (downloadTask e a dir p s) = Inr ()"
  by (simp add: downloadTask_def Let_def split: prod.split sum.split)

text \<open>
  C3, as the code has it. A task's promise never rejects. A task whose \<^verbatim>\<open>try\<close>
  block does not throw ticks the progress bar exactly once, with its file name and one of
  the three status labels, and prints no error line; a task whose block throws does not
  tick the progress bar at all: it prints one error line with the title and the error.
\<close>

theorem downloadTask_progress_events:
  "fst (downloadTask e a dir p s) = Inr () \<and>
   (taskThrows e a dir p s = None \<longrightarrow>
      (\<exists>st. ticks (snd (downloadTask e a dir p s)) = ticks s @ [Tick (taskFilename p) st]) \<and>
      errorLines (snd (downloadTask e a dir p s)) = errorLines s) \<and>
   (\<forall>err. taskThrows e a dir p s = Some err \<longrightarrow>
      ticks (snd (downloadTask e a dir p s)) = ticks s \<and>
      errorLines (snd (downloadTask e a dir p s))
        = errorLines s @ [ConsoleError (FailedToDownload (title p)) (Some err)])"
proof -
  obtain r s' where tb:
    "taskBody e a (downloadLink p) (taskFilename p) (taskOutputPath dir p) s = (r, s')"
    by (cases "taskBody e a (downloadLink p) (taskFilename p) (taskOutputPath dir p) s")
  from taskBody_events [OF tb] tb show ?thesis
    by (cases r) (auto simp: downloadTask_def taskThrows_def ticks_def errorLines_def emit_def)
qed

theorem downloadTask_progress_events_witness:
  "taskThrows env0 argv0 (js ''/downloads'') ep2 io0 = None \<and>
   ticks (snd (downloadTask env0 argv0 (js ''/downloads'') ep2 io0))
     = [Tick (js ''B_-_Ep2.mp3'') Downloaded] \<and>
   errorLines (snd (downloadTask env0 argv0 (js ''/downloads'') ep2 io0)) = [] \<and>
   taskThrows env0 argv0 (js ''/downloads'') ep1 io0
     = Some (DownloadFailed (js ''http://x/1.mp3'') (js ''Not Found'')) \<and>
   ticks (snd (downloadTask env0 argv0 (js ''/downloads'') ep1 io0)) = [] \<and>
   errorLines (snd (downloadTask env0 argv0 (js ''/downloads'') ep1 io0))
     = [ConsoleError (FailedToDownload (js ''A - Ep1''))
          (Some (DownloadFailed (js ''http://x/1.mp3'') (js ''Not Found'')))]"
  using downloadTask_progress_events [of env0 argv0 "js ''/downloads''" ep2 io0]
    downloadTask_progress_events [of env0 argv0 "js ''/downloads''" ep1 io0]
  by (simp add: run_defs run_facts io0_def)

text \<open>
  The claim as stated fails: of the two tasks of this run the one whose download is
  refused settles without any tick; the run ends with one tick and one error line.
\<close>

theorem failed_task_without_tick_counterexample:
  "fst (startup env0 argv0 io0) = Dispatch [ep1, ep2] (js ''/downloads'') \<and>
   map_option (\<lambda>(code, s). (code, ticks s, errorLines s))
       (downloadMain env0 argv0 [Start, Start, Settle 1, Settle 0] io0) =
     Some (0, [Tick (js ''B_-_Ep2.mp3'') Downloaded],
              [ConsoleError (FailedToDownload (js ''A - Ep1''))
                 (Some (DownloadFailed (js ''http://x/1.mp3'') (js ''Not Found'')))])"
  by (simp add: run_defs run_facts io0_def)

section \<open>Properties of the limiter and the run\<close>

lemma mset_without_nth:
  "i < length xs \<Longrightarrow> add_mset (xs ! i) (mset (take i xs @ drop (Suc i) xs)) = mset xs"
proof -
  assume "i < length xs"
  then have "xs = take i xs @ xs ! i # drop (Suc i) xs"
    by (rule id_take_nth_drop)
  then have "mset xs = mset (take i xs @ xs ! i # drop (Suc i) xs)"
    by simp
  then show ?thesis by simp
qed

lemma schedStep_Start:
  "schedStep e a dir Start q = Some q' \<longleftrightarrow>
     (\<exists>p ps. pending q = p # ps \<and> length (active q) < argv_parallel a \<and>
        q' = q\<lparr>pending := ps, active := active q @ [p]\<rparr>)"
  by (auto split: list.splits)

lemma schedStep_Settle:
  "schedStep e a dir (Settle i) q = Some q' \<longleftrightarrow>
     i < length (active q) \<and>
     q' = q\<lparr>active := take i (active q) @ drop (Suc i) (active q),
            settled := settled q @ [(active q ! i, Inr ())],
            world := snd (downloadTask e a dir (active q ! i) (world q))\<rparr>"
  using downloadTask_fulfils [of e a dir "active q ! i" "world q"]
  by (auto simp: Let_def split: prod.splits)

lemma schedStep_cap:
  "schedStep e a dir act q = Some q' \<Longrightarrow> length (active q) \<le> argv_parallel a
     \<Longrightarrow> length (active q') \<le> argv_parallel a"
  by (cases act) (auto simp: schedStep_Start schedStep_Settle simp del: schedStep.simps)

lemma schedStep_tasks:
  "schedStep e a dir act q = Some q' \<Longrightarrow>
   mset (map fst (settled q')) + mset (active q') + mset (pending q')
     = mset (map fst (settled q)) + mset (active q) + mset (pending q)"
proof (cases act)
  case Start
  assume "schedStep e a dir act q = Some q'"
  with Start show ?thesis
    by (auto simp: schedStep_Start simp del: schedStep.simps)
next
  case (Settle i)
  assume "schedStep e a dir act q = Some q'"
  with Settle have i: "i < length (active q)"
    and q': "q' = q\<lparr>active := take i (active q) @ drop (Suc i) (active q),
            settled := settled q @ [(active q ! i, Inr ())],
            world := snd (downloadTask e a dir (active q ! i) (world q))\<rparr>"
    by (simp_all add: schedStep_Settle del: schedStep.simps)
  have a: "mset (active q) = add_mset (active q ! i) (mset (active q'))"
    using mset_without_nth [OF i] q' by simp
  have b: "mset (map fst (settled q')) = add_mset (active q ! i) (mset (map fst (settled q)))"
    using q' by simp
  have c: "pending q' = pending q"
    using q' by simp
  show ?thesis
    unfolding a b c by simp
qed

lemma firstRejection_snoc:
  "firstRejection (rs @ [(p, Inr u)]) = firstRejection rs"
  by (induction rs rule: firstRejection.induct) auto

lemma schedStep_fulfilled:
  "schedStep e a dir act q = Some q' \<Longrightarrow> firstRejection (settled q) = None
     \<Longrightarrow> firstRejection (settled q') = None"
  by (cases act)
    (auto simp: schedStep_Start schedStep_Settle firstRejection_snoc simp del: schedStep.simps)

lemma schedStep_order:
  "schedStep e a dir act q = Some q' \<Longrightarrow>
   pending q = drop (length (settled q) + length (active q)) podcasts \<Longrightarrow>
   pending q' = drop (length (settled q') + length (active q')) podcasts"
proof (cases act)
  case Start
  assume st: "schedStep e a dir act q = Some q'"
    and pd: "pending q = drop (length (settled q) + length (active q)) podcasts"
  from st Start obtain p ps where pq: "pending q = p # ps"
    and q': "q' = q\<lparr>pending := ps, active := active q @ [p]\<rparr>"
    by (auto simp: schedStep_Start simp del: schedStep.simps)
  have "ps = drop 1 (pending q)" using pq by simp
  also have "\<dots> = drop (Suc (length (settled q) + length (active q))) podcasts"
    by (subst pd) simp
  finally show ?thesis using q' by simp
next
  case (Settle i)
  assume st: "schedStep e a dir act q = Some q'"
    and pd: "pending q = drop (length (settled q) + length (active q)) podcasts"
  from st Settle have i: "i < length (active q)"
    and q': "q' = q\<lparr>active := take i (active q) @ drop (Suc i) (active q),
            settled := settled q @ [(active q ! i, Inr ())],
            world := snd (downloadTask e a dir (active q ! i) (world q))\<rparr>"
    by (simp_all add: schedStep_Settle del: schedStep.simps)
  from i have n: "length (settled q') + length (active q') = length (settled q) + length (active q)"
    by (simp add: q')
  have c: "pending q' = pending q"
    using q' by simp
  show ?thesis
    unfolding c n by (rule pd)
qed

lemma schedStep_serial:
  "schedStep e a dir act q = Some q' \<Longrightarrow> argv_parallel a = 1 \<Longrightarrow>
   length (active q) \<le> 1 \<Longrightarrow> map fst (settled q) @ active q @ pending q = podcasts \<Longrightarrow>
   map fst (settled q') @ active q' @ pending q' = podcasts"
proof (cases act)
  case Start
  assume "schedStep e a dir act q = Some q'" "argv_parallel a = 1"
    "map fst (settled q) @ active q @ pending q = podcasts"
  with Start show ?thesis
    by (auto simp: schedStep_Start simp del: schedStep.simps)
next
  case (Settle i)
  assume st: "schedStep e a dir act q = Some q'" and "length (active q) \<le> 1"
    and eq: "map fst (settled q) @ active q @ pending q = podcasts"
  from st Settle have i: "i < length (active q)"
    and q': "q' = q\<lparr>active := take i (active q) @ drop (Suc i) (active q),
            settled := settled q @ [(active q ! i, Inr ())],
            world := snd (downloadTask e a dir (active q ! i) (world q))\<rparr>"
    by (simp_all add: schedStep_Settle del: schedStep.simps)
  with \<open>length (active q) \<le> 1\<close> have "i = 0" "length (active q) = 1" by auto
  then obtain p where "active q = [p]" by (cases "active q") auto
  with q' \<open>i = 0\<close> eq show ?thesis by auto
qed

lemma runSchedule_invariant:
  assumes step: "\<And>act q q'. P q \<Longrightarrow> schedStep e a dir act q = Some q' \<Longrightarrow> P q'"
  shows "P q \<Longrightarrow> runSchedule e a dir acts q = Some q' \<Longrightarrow> P q'"
proof (induction acts arbitrary: q)
  case Nil
  then show ?case by simp
next
  case (Cons act acts)
  from Cons.prems(2) obtain q1 where s1: "schedStep e a dir act q = Some q1"
    and r: "runSchedule e a dir acts q1 = Some q'"
    by (auto split: option.splits)
  from step [OF Cons.prems(1) s1] have "P q1" .
  from Cons.IH [OF this r] show ?case .
qed

lemma runSchedule_append:
  "runSchedule e a dir (xs @ ys) q =
     (case runSchedule e a dir xs q of None \<Rightarrow> None | Some q' \<Rightarrow> runSchedule e a dir ys q')"
  by (induction xs arbitrary: q) (auto split: option.splits)

lemma runSchedule_cap:
  assumes "runSchedule e a dir acts (initSched podcasts s) = Some q"
  shows "length (active q) \<le> argv_parallel a"
proof (rule runSchedule_invariant
    [where P = "\<lambda>q. length (active q) \<le> argv_parallel a", OF _ _ assms])
  show "\<And>act q q'. length (active q) \<le> argv_parallel a \<Longrightarrow>
      schedStep e a dir act q = Some q' \<Longrightarrow> length (active q') \<le> argv_parallel a"
    by (rule schedStep_cap)
  show "length (active (initSched podcasts s)) \<le> argv_parallel a"
    by (simp add: initSched_def)
qed

lemma runSchedule_tasks:
  assumes "runSchedule e a dir acts (initSched podcasts s) = Some q"
  shows "mset (map fst (settled q)) + mset (active q) + mset (pending q) = mset podcasts"
proof (rule runSchedule_invariant
    [where P = "\<lambda>q. mset (map fst (settled q)) + mset (active q) + mset (pending q)
                   = mset podcasts", OF _ _ assms])
  show "\<And>act q q'.
      mset (map fst (settled q)) + mset (active q) + mset (pending q) = mset podcasts \<Longrightarrow>
      schedStep e a dir act q = Some q' \<Longrightarrow>
      mset (map fst (settled q')) + mset (active q') + mset (pending q') = mset podcasts"
    using schedStep_tasks by metis
  show "mset (map fst (settled (initSched podcasts s))) + mset (active (initSched podcasts s))
      + mset (pending (initSched podcasts s)) = mset podcasts"
    by (simp add: initSched_def)
qed

lemma runSchedule_fulfilled:
  assumes "runSchedule e a dir acts (initSched podcasts s) = Some q"
  shows "firstRejection (settled q) = None"
proof (rule runSchedule_invariant
    [where P = "\<lambda>q. firstRejection (settled q) = None", OF _ _ assms])
  show "\<And>act q q'. firstRejection (settled q) = None \<Longrightarrow>
      schedStep e a dir act q = Some q' \<Longrightarrow> firstRejection (settled q') = None"
    using schedStep_fulfilled by metis
  show "firstRejection (settled (initSched podcasts s)) = None"
    by (simp add: initSched_def)
qed

lemma runSchedule_order:
  assumes "runSchedule e a dir acts (initSched podcasts s) = Some q"
  shows "pending q = drop (length (settled q) + length (active q)) podcasts"
proof (rule runSchedule_invariant
    [where P = "\<lambda>q. pending q = drop (length (settled q) + length (active q)) podcasts",
      OF _ _ assms])
  show "\<And>act q q'. pending q = drop (length (settled q) + length (active q)) podcasts \<Longrightarrow>
      schedStep e a dir act q = Some q' \<Longrightarrow>
      pending q' = drop (length (settled q') + length (active q')) podcasts"
    using schedStep_order by metis
  show "pending (initSched podcasts s)
      = drop (length (settled (initSched podcasts s)) + length (active (initSched podcasts s)))
          podcasts"
    by (simp add: initSched_def)
qed

lemma runSchedule_serial:
  assumes "runSchedule e a dir acts (initSched podcasts s) = Some q"
    and one: "argv_parallel a = 1"
  shows "map fst (settled q) @ active q @ pending q = podcasts"
proof -
  have "length (active q) \<le> 1 \<and> map fst (settled q) @ active q @ pending q = podcasts"
  proof (rule runSchedule_invariant
      [where P = "\<lambda>q. length (active q) \<le> 1 \<and>
                     map fst (settled q) @ active q @ pending q = podcasts", OF _ _ assms(1)])
    show "\<And>act q q'.
        length (active q) \<le> 1 \<and> map fst (settled q) @ active q @ pending q = podcasts \<Longrightarrow>
        schedStep e a dir act q = Some q' \<Longrightarrow>
        length (active q') \<le> 1 \<and> map fst (settled q') @ active q' @ pending q' = podcasts"
      using schedStep_serial [OF _ one] schedStep_cap [where a = a] one by metis
    show "length (active (initSched podcasts s)) \<le> 1 \<and>
        map fst (settled (initSched podcasts s)) @ active (initSched podcasts s)
          @ pending (initSched podcasts s) = podcasts"
      by (simp add: initSched_def)
  qed
  then show ?thesis by simp
qed

lemma drain_completes:
  "\<exists>q'. runSchedule e a dir (drainSchedule (length (active q))) q = Some q' \<and>
        active q' = [] \<and> pending q' = pending q"
proof (induction "length (active q)" arbitrary: q)
  case 0
  then show ?case by (simp add: drainSchedule_def)
next
  case (Suc n)
  define q1 where "q1 = q\<lparr>active := take 0 (active q) @ drop (Suc 0) (active q),
            settled := settled q @ [(active q ! 0, Inr ())],
            world := snd (downloadTask e a dir (active q ! 0) (world q))\<rparr>"
  from Suc.hyps(2) have len: "length (active q) = Suc n"
    by simp
  then have st: "schedStep e a dir (Settle 0) q = Some q1"
    unfolding schedStep_Settle q1_def by simp
  from len have "n = length (active q1)"
    by (simp add: q1_def)
  from Suc.hyps(1) [OF this] obtain q' where
    "runSchedule e a dir (drainSchedule (length (active q1))) q1 = Some q'"
    "active q' = []" "pending q' = pending q1"
    by blast
  moreover have "pending q1 = pending q"
    by (simp add: q1_def)
  moreover have "drainSchedule (length (active q)) = Settle 0 # drainSchedule (length (active q1))"
    using len \<open>n = length (active q1)\<close> by (simp add: drainSchedule_def)
  ultimately show ?case
    using st by (simp del: schedStep.simps)
qed

lemma sequential_completes:
  "0 < argv_parallel a \<Longrightarrow> active q = [] \<Longrightarrow>
   \<exists>q'. runSchedule e a dir (sequentialSchedule (length (pending q))) q = Some q' \<and>
        active q' = [] \<and> pending q' = []"
proof (induction "length (pending q)" arbitrary: q)
  case 0
  then show ?case by (simp add: sequentialSchedule_def)
next
  case (Suc n)
  from Suc.hyps(2) obtain p ps where pq: "pending q = p # ps"
    by (cases "pending q") auto
  define q1 where "q1 = q\<lparr>pending := ps, active := active q @ [p]\<rparr>"
  define q2 where "q2 = q1\<lparr>active := take 0 (active q1) @ drop (Suc 0) (active q1),
            settled := settled q1 @ [(active q1 ! 0, Inr ())],
            world := snd (downloadTask e a dir (active q1 ! 0) (world q1))\<rparr>"
  have s1: "schedStep e a dir Start q = Some q1"
    unfolding schedStep_Start q1_def using pq Suc.prems by simp
  have s2: "schedStep e a dir (Settle 0) q1 = Some q2"
    unfolding schedStep_Settle q2_def by (simp add: q1_def)
  have a2: "active q2 = []" and p2: "pending q2 = ps"
    using Suc.prems(2) by (simp_all add: q2_def q1_def)
  from Suc.hyps(2) pq p2 have "n = length (pending q2)" by simp
  from Suc.hyps(1) [OF this Suc.prems(1) a2] obtain q' where
    "runSchedule e a dir (sequentialSchedule (length (pending q2))) q2 = Some q'"
    "active q' = []" "pending q' = []"
    by blast
  moreover have "sequentialSchedule (length (pending q))
      = Start # Settle 0 # sequentialSchedule (length (pending q2))"
    using pq p2 by (simp add: sequentialSchedule_def)
  ultimately show ?case
    using s1 s2 by (simp del: schedStep.simps)
qed

lemma run_completes:
  assumes "0 < argv_parallel a"
  shows "\<exists>q'. runSchedule e a dir
           (drainSchedule (length (active q)) @ sequentialSchedule (length (pending q))) q
             = Some q' \<and> active q' = [] \<and> pending q' = []"
proof -
  from drain_completes [of e a dir q] obtain q1 where
    d: "runSchedule e a dir (drainSchedule (length (active q))) q = Some q1"
    and a1: "active q1 = []" and p1: "pending q1 = pending q"
    by blast
  from sequential_completes [OF assms a1, of e dir] obtain q' where
    "runSchedule e a dir (sequentialSchedule (length (pending q1))) q1 = Some q'"
    "active q' = []" "pending q' = []"
    by blast
  with d p1 show ?thesis
    by (simp add: runSchedule_append)
qed

lemma downloadMain_Dispatch:
  assumes "startup e a s = (Dispatch podcasts dir, s1)"
  shows "downloadMain e a schedule s =
     (case runSchedule e a dir schedule (initSched podcasts s1) of
        None \<Rightarrow> None
      | Some q \<Rightarrow>
          if pending q = [] \<and> active q = []
          then Some (0, emit (ConsoleLog DownloadsComplete) (world q)) else None)"
proof (cases "runSchedule e a dir schedule (initSched podcasts s1)")
  case None
  with assms show ?thesis by (simp add: downloadMain_def)
next
  case (Some q)
  from runSchedule_fulfilled [OF Some] Some assms show ?thesis
    by (simp add: downloadMain_def)
qed

text \<open>
  C8, on the limiter as modelled from the spec. In every state a run of the limiter
  reaches, the tasks in flight are at most \<open>parallelism\<close>; the tasks not yet started
  are the rest of the catalog, in order; once a task in flight has completed, a waiting
  task can start at once; and with \<open>parallelism = 1\<close> the tasks run one at a time in
  catalog order, so that a task has started only if the one before it has settled.
\<close>

theorem limiter_cap:
  "runSchedule e a dir schedule (initSched podcasts s) = Some q \<longrightarrow>
     length (active q) \<le> argv_parallel a \<and>
     pending q = drop (length (settled q) + length (active q)) podcasts \<and>
     (\<forall>i q'. schedStep e a dir (Settle i) q = Some q' \<and> pending q' \<noteq> [] \<longrightarrow>
        (\<exists>q''. schedStep e a dir Start q' = Some q'')) \<and>
     (argv_parallel a = 1 \<longrightarrow>
        map fst (settled q) @ active q @ pending q = podcasts \<and>
        (\<forall>k. Suc k < length (settled q) + length (active q) \<longrightarrow> k < length (settled q)))"
proof
  assume r: "runSchedule e a dir schedule (initSched podcasts s) = Some q"
  have cap: "length (active q) \<le> argv_parallel a"
    using r by (rule runSchedule_cap)
  have ord: "pending q = drop (length (settled q) + length (active q)) podcasts"
    using r by (rule runSchedule_order)
  have reuse: "\<exists>q''. schedStep e a dir Start q' = Some q''"
    if "schedStep e a dir (Settle i) q = Some q'" "pending q' \<noteq> []" for i q'
  proof -
    from that(1) have i: "i < length (active q)"
      and la: "length (active q') = length (active q) - 1"
      by (auto simp: schedStep_Settle simp del: schedStep.simps)
    with cap have "length (active q') < argv_parallel a" by simp
    moreover from that(2) obtain p ps where "pending q' = p # ps"
      by (cases "pending q'") auto
    ultimately show ?thesis
      by (simp add: schedStep_Start del: schedStep.simps)
  qed
  have serial: "map fst (settled q) @ active q @ pending q = podcasts \<and>
        (\<forall>k. Suc k < length (settled q) + length (active q) \<longrightarrow> k < length (settled q))"
    if one: "argv_parallel a = 1"
  proof -
    from cap one have "length (active q) \<le> 1" by simp
    then have "\<forall>k. Suc k < length (settled q) + length (active q) \<longrightarrow> k < length (settled q)"
      by auto
    with runSchedule_serial [OF r one] show ?thesis by simp
  qed
  from cap ord reuse serial
  show "length (active q) \<le> argv_parallel a \<and>
     pending q = drop (length (settled q) + length (active q)) podcasts \<and>
     (\<forall>i q'. schedStep e a dir (Settle i) q = Some q' \<and> pending q' \<noteq> [] \<longrightarrow>
        (\<exists>q''. schedStep e a dir Start q' = Some q'')) \<and>
     (argv_parallel a = 1 \<longrightarrow>
        map fst (settled q) @ active q @ pending q = podcasts \<and>
        (\<forall>k. Suc k < length (settled q) + length (active q) \<longrightarrow> k < length (settled q)))"
    by blast
qed

theorem limiter_cap_witness:
  "argv_parallel argv1 = 1 \<and>
   runSchedule env0 argv1 (js ''/downloads'') [Start, Settle 0, Start] (initSched [ep1, ep2] io0)
     = Some \<lparr>pending = [], active = [ep2], settled = [(ep1, Inr ())],
              world = \<lparr>files = {}, trace = [Fetch (js ''http://x/1.mp3''),
                ConsoleError (FailedToDownload (js ''A - Ep1''))
                  (Some (DownloadFailed (js ''http://x/1.mp3'') (js ''Not Found'')))]\<rparr>\<rparr> \<and>
   length [ep2] \<le> argv_parallel argv1 \<and>
   map fst [(ep1, Inr ())] @ [ep2] @ [] = [ep1, ep2] \<and>
   runSchedule env0 argv1 (js ''/downloads'') [Start, Start] (initSched [ep1, ep2] io0) = None"
  using limiter_cap [of env0 argv1 "js ''/downloads''" "[Start, Settle 0, Start]" "[ep1, ep2]" io0
      "\<lparr>pending = [], active = [ep2], settled = [(ep1, Inr ())],
              world = \<lparr>files = {}, trace = [Fetch (js ''http://x/1.mp3''),
                ConsoleError (FailedToDownload (js ''A - Ep1''))
                  (Some (DownloadFailed (js ''http://x/1.mp3'') (js ''Not Found'')))]\<rparr>\<rparr>"]
  by (simp add: run_defs run_facts io0_def)

text \<open>
  C9. Once the tasks are dispatched, in every state of every run: no task promise has
  rejected, every dispatched task is settled, in flight or waiting (none is cancelled),
  and, with a positive \<open>parallelism\<close>, the run can go on to a completion with exit
  code 0. Whenever \<open>main\<close> returns it returns the code 0, and it does so only from a
  state where every dispatched task has settled. All of this whatever the tasks throw.
\<close>

theorem task_failures_are_isolated:
  "startup e a s = (Dispatch podcasts dir, s1) \<longrightarrow>
     (\<forall>schedule q. runSchedule e a dir schedule (initSched podcasts s1) = Some q \<longrightarrow>
        firstRejection (settled q) = None \<and>
        mset (map fst (settled q)) + mset (active q) + mset (pending q) = mset podcasts \<and>
        (0 < argv_parallel a \<longrightarrow>
           (\<exists>rest s'. downloadMain e a (schedule @ rest) s = Some (0, s')))) \<and>
     (\<forall>schedule code s'. downloadMain e a schedule s = Some (code, s') \<longrightarrow>
        code = 0 \<and>
        (\<exists>q. runSchedule e a dir schedule (initSched podcasts s1) = Some q \<and>
             pending q = [] \<and> active q = [] \<and>
             mset (map fst (settled q)) = mset podcasts \<and>
             s' = emit (ConsoleLog DownloadsComplete) (world q)))"
proof
  assume st: "startup e a s = (Dispatch podcasts dir, s1)"
  note main = downloadMain_Dispatch [OF st]
  have part1: "firstRejection (settled q) = None \<and>
        mset (map fst (settled q)) + mset (active q) + mset (pending q) = mset podcasts \<and>
        (0 < argv_parallel a \<longrightarrow>
           (\<exists>rest s'. downloadMain e a (schedule @ rest) s = Some (0, s')))"
    if r: "runSchedule e a dir schedule (initSched podcasts s1) = Some q" for schedule q
  proof -
    have "\<exists>rest s'. downloadMain e a (schedule @ rest) s = Some (0, s')"
      if pos: "0 < argv_parallel a"
    proof -
      from run_completes [OF pos, of e dir q] obtain q' where
        c: "runSchedule e a dir
             (drainSchedule (length (active q)) @ sequentialSchedule (length (pending q))) q
               = Some q'" and "active q' = []" "pending q' = []"
        by blast
      then have "downloadMain e a
          (schedule @ drainSchedule (length (active q)) @ sequentialSchedule (length (pending q))) s
            = Some (0, emit (ConsoleLog DownloadsComplete) (world q'))"
        using r by (simp add: main runSchedule_append)
      then show ?thesis by blast
    qed
    with runSchedule_fulfilled [OF r] runSchedule_tasks [OF r] show ?thesis by blast
  qed
  have part2: "code = 0 \<and>
        (\<exists>q. runSchedule e a dir schedule (initSched podcasts s1) = Some q \<and>
             pending q = [] \<and> active q = [] \<and>
             mset (map fst (settled q)) = mset podcasts \<and>
             s' = emit (ConsoleLog DownloadsComplete) (world q))"
    if m: "downloadMain e a schedule s = Some (code, s')" for schedule code s'
  proof -
    from m obtain q where r: "runSchedule e a dir schedule (initSched podcasts s1) = Some q"
      by (auto simp: main split: option.splits)
    with m have idle: "pending q = []" "active q = []" and zero: "code = 0"
      and s': "s' = emit (ConsoleLog DownloadsComplete) (world q)"
      by (auto simp: main split: if_splits)
    from runSchedule_tasks [OF r] idle have "mset (map fst (settled q)) = mset podcasts"
      by simp
    with r idle zero s' show ?thesis by blast
  qed
  from part1 part2
  show "(\<forall>schedule q. runSchedule e a dir schedule (initSched podcasts s1) = Some q \<longrightarrow>
        firstRejection (settled q) = None \<and>
        mset (map fst (settled q)) + mset (active q) + mset (pending q) = mset podcasts \<and>
        (0 < argv_parallel a \<longrightarrow>
           (\<exists>rest s'. downloadMain e a (schedule @ rest) s = Some (0, s')))) \<and>
     (\<forall>schedule code s'. downloadMain e a schedule s = Some (code, s') \<longrightarrow>
        code = 0 \<and>
        (\<exists>q. runSchedule e a dir schedule (initSched podcasts s1) = Some q \<and>
             pending q = [] \<and> active q = [] \<and>
             mset (map fst (settled q)) = mset podcasts \<and>
             s' = emit (ConsoleLog DownloadsComplete) (world q)))"
    by blast
qed

theorem task_failures_are_isolated_witness:
  "startup env0 argv0 io0 =
     (Dispatch [ep1, ep2] (js ''/downloads''),
      \<lparr>files = {js ''/downloads''},
        trace = [ReadFile (js ''podcasts.json''), ExecSync (js ''ffmpeg -version''),
                 Mkdir (js ''/downloads'')]\<rparr>) \<and>
   taskThrows env0 argv0 (js ''/downloads'') ep1 io0
     = Some (DownloadFailed (js ''http://x/1.mp3'') (js ''Not Found'')) \<and>
   downloadMain env0 argv0 [Start, Start, Settle 0, Settle 0] io0 =
     Some (0, \<lparr>files = {js ''/downloads/B_-_Ep2.mp3'', js ''/downloads''},
         trace = [ReadFile (js ''podcasts.json''), ExecSync (js ''ffmpeg -version''),
               Mkdir (js ''/downloads''),
               Fetch (js ''http://x/1.mp3''),
               ConsoleError (FailedToDownload (js ''A - Ep1''))
                 (Some (DownloadFailed (js ''http://x/1.mp3'') (js ''Not Found''))),
               Fetch (js ''http://x/2.mp3''),
               CreateWriteStream (js ''/downloads/B_-_Ep2.mp3''),
               Tick (js ''B_-_Ep2.mp3'') Downloaded,
               ConsoleLog DownloadsComplete]\<rparr>)"
  using task_failures_are_isolated [of env0 argv0 io0 "[ep1, ep2]" "js ''/downloads''"
      "\<lparr>files = {js ''/downloads''},
        trace = [ReadFile (js ''podcasts.json''), ExecSync (js ''ffmpeg -version''),
                 Mkdir (js ''/downloads'')]\<rparr>"]
  by (simp add: run_defs run_facts io0_def)

end
